theory Spec2Isabelle
  imports Complex_Main
begin

section \<open>The metrics engine of the typing test (src/lib/calculations.ts)\<close>

text \<open>
  The module is a set of pure functions over JavaScript numbers, strings and arrays.
  A JavaScript \<open>number\<close> is an IEEE 754 binary64 value, and every arithmetic operation
  of the source rounds its exact result to the nearest such value, a tie going to the
  even significand. The model keeps a number as the \<^typ>\<open>real\<close> it denotes and applies
  that rounding, \<open>fl\<close>, after each operation, in the order in which the source
  computes. The rounding is modelled with 53 significant bits and an unbounded exponent:
  it is the code's as long as no intermediate result overflows or falls below the
  normal range (magnitudes from \<open>2^-1022\<close> up to \<open>2^1024\<close>), which is where the
  code would produce an infinity, a NaN or a subnormal; the model has none of these.
  Past its guards the module never divides by zero. The functions are defined on every
  real; a number the code can receive is one that \<open>fl\<close> leaves as it is, and what is
  proved for all reals holds for these.

  The value of \<open>Math.round\<close> is an \<^typ>\<open>int\<close>, and \<open>.length\<close> a \<^typ>\<open>nat\<close>, embedded
  back into the reals where the source goes on computing with them. Differences of
  counts and of percentages (\<open>100 - accuracy\<close>, \<open>keystrokes.length - correctKeystrokes\<close>)
  are integers far below \<open>2^53\<close>, where the arithmetic of the code is exact; they are
  computed in \<^typ>\<open>int\<close>. A string is the list of its UTF-16 code units; the module
  only indexes strings, compares units and takes lengths, so the unit type is left
  polymorphic.
\<close>

subsection \<open>Data\<close>

text \<open>\<open>duration: number | null\<close> and \<open>keyUpTime: number | null\<close> are options.\<close>

record KeystrokeEvent =
  key :: string
  keyDownTime :: real
  keyUpTime :: "real option"
  duration :: "real option"
  isCorrect :: bool
  characterIndex :: nat

text \<open>The object returned by \<open>detectFatigue\<close>.\<close>

record Fatigue =
  fatigueDetected :: bool
  fatigueScore :: int
  earlyWPM :: int
  lateWPM :: int

record PerformanceMetrics =
  wpm :: int
  accuracy :: int
  errorRate :: int
  totalKeystrokes :: int
  correctKeystrokes :: int
  incorrectKeystrokes :: int
  averageKeystrokeDuration :: int
  keystrokeDurationStdDev :: int
  tremorSeverityScore :: int
  metricsFatigueDetected :: bool
  metricsFatigueScore :: int

subsection \<open>Double-precision arithmetic\<close>

text \<open>
  \<open>pow2 e\<close> is \<open>2^e\<close> for an integer \<open>e\<close>, and \<open>expo x\<close> the binary exponent of a
  positive \<open>x\<close>: the \<open>e\<close> with \<open>2^e \<le> x < 2^(e+1)\<close>.
\<close>

definition pow2 :: "int \<Rightarrow> real" where
  "pow2 e = 2 powr real_of_int e"

definition expo :: "real \<Rightarrow> int" where
  "expo x = (if x \<le> 0 then 0 else \<lfloor>log 2 x\<rfloor>)"

text \<open>Rounding to the nearest integer, a tie going to the even one.\<close>

definition rne :: "real \<Rightarrow> int" where
  "rne x = (let f = \<lfloor>x\<rfloor>; r = x - real_of_int f
            in if r < 1 / 2 then f
               else if 1 / 2 < r then f + 1
               else if even f then f else f + 1)"

text \<open>
  \<open>fl x\<close> is the binary64 value nearest to \<open>x\<close>: with \<open>2^e \<le> |x| < 2^(e+1)\<close> the
  values around \<open>x\<close> are the multiples of \<open>2^(e-52)\<close>, and \<open>x\<close> goes to the nearest one.
\<close>

definition fl :: "real \<Rightarrow> real" where
  "fl x = (if x = 0 then 0
           else let ulp = pow2 (expo \<bar>x\<bar> - 52)
                in real_of_int (rne (x / ulp)) * ulp)"

text \<open>The operators \<open>+\<close>, \<open>-\<close>, \<open>*\<close>, \<open>/\<close> of the source, and \<open>Math.sqrt\<close>.\<close>

definition js_add :: "real \<Rightarrow> real \<Rightarrow> real" where
  "js_add x y = fl (x + y)"

definition js_sub :: "real \<Rightarrow> real \<Rightarrow> real" where
  "js_sub x y = fl (x - y)"

definition js_mul :: "real \<Rightarrow> real \<Rightarrow> real" where
  "js_mul x y = fl (x * y)"

definition js_div :: "real \<Rightarrow> real \<Rightarrow> real" where
  "js_div x y = fl (x / y)"

definition Math_sqrt :: "real \<Rightarrow> real" where
  "Math_sqrt x = fl (sqrt x)"

text \<open>\<open>xs.reduce((acc, val) => acc + val, 0)\<close>: the sum from the left, rounded at each step.\<close>

definition js_sum :: "real list \<Rightarrow> real" where
  "js_sum xs = foldl js_add 0 xs"

text \<open>
  \<open>Math.round(x)\<close>: the integer nearest to \<open>x\<close>, a tie going towards plus infinity.
  It is computed on the value of \<open>x\<close> itself, with no rounding of \<open>x + 0.5\<close>.
\<close>

definition Math_round :: "real \<Rightarrow> int" where
  "Math_round x = \<lfloor>x + 1 / 2\<rfloor>"

text \<open>\<open>k.duration || 0\<close>: a \<open>null\<close> (and a zero) duration counts as 0.\<close>

definition duration_or_0 :: "KeystrokeEvent \<Rightarrow> real" where
  "duration_or_0 k = (case duration k of None \<Rightarrow> 0 | Some d \<Rightarrow> if d = 0 then 0 else d)"

subsection \<open>calculateWPM, calculateAccuracy, calculateErrorRate\<close>

definition calculateWPM :: "real \<Rightarrow> real \<Rightarrow> int" where
  "calculateWPM characterCount durationMs =
     (if durationMs = 0 then 0
      else let minutes = js_div durationMs 60000;
               words = js_div characterCount 5
           in Math_round (js_div words minutes))"

text \<open>
  The \<open>for\<close> loop of \<open>calculateAccuracy\<close>: \<open>i\<close> runs up to \<open>comparisonLength\<close>, and
  \<open>correct\<close> is incremented where the two units agree. Both reads are in range,
  since \<open>i\<close> stays below the shorter length.
\<close>

function accuracy_loop :: "'c list \<Rightarrow> 'c list \<Rightarrow> nat \<Rightarrow> nat \<Rightarrow> nat \<Rightarrow> nat" where
  "accuracy_loop typedText referenceText comparisonLength i correct =
     (if i < comparisonLength
      then accuracy_loop typedText referenceText comparisonLength (Suc i)
             (if typedText ! i = referenceText ! i then Suc correct else correct)
      else correct)"
  by pat_completeness auto
termination
  by (relation "measure (\<lambda>(t, r, n, i, c). n - i)") auto

declare accuracy_loop.simps [simp del]

definition calculateAccuracy :: "'c list \<Rightarrow> 'c list \<Rightarrow> int" where
  "calculateAccuracy typedText referenceText =
     (if length typedText = 0 then 100
      else let comparisonLength = min (length typedText) (length referenceText);
               correct = accuracy_loop typedText referenceText comparisonLength 0 0
           in Math_round (js_mul (js_div (real correct) (real (length typedText))) 100))"

definition calculateErrorRate :: "'c list \<Rightarrow> 'c list \<Rightarrow> int" where
  "calculateErrorRate typedText referenceText =
     100 - calculateAccuracy typedText referenceText"

subsection \<open>Keystroke duration statistics and the tremor score\<close>

definition validKeystrokes :: "KeystrokeEvent list \<Rightarrow> KeystrokeEvent list" where
  "validKeystrokes keystrokes = filter (\<lambda>k. duration k \<noteq> None) keystrokes"

definition calculateAverageKeystrokeDuration :: "KeystrokeEvent list \<Rightarrow> int" where
  "calculateAverageKeystrokeDuration keystrokes =
     (let valid = validKeystrokes keystrokes
      in if length valid = 0 then 0
         else let sum = foldl (\<lambda>acc k. js_add acc (duration_or_0 k)) 0 valid
              in Math_round (js_div sum (real (length valid))))"

definition calculateKeystrokeDurationStdDev :: "KeystrokeEvent list \<Rightarrow> int" where
  "calculateKeystrokeDurationStdDev keystrokes =
     (let valid = validKeystrokes keystrokes
      in if length valid = 0 then 0
         else let mean = calculateAverageKeystrokeDuration keystrokes;
                  squaredDiffs = map (\<lambda>k. let diff = js_sub (duration_or_0 k) (real_of_int mean)
                                           in js_mul diff diff) valid;
                  variance = js_div (foldl (\<lambda>acc val. js_add acc val) 0 squaredDiffs)
                                    (real (length valid))
              in Math_round (Math_sqrt variance))"

text \<open>The local \<open>coefficientOfVariation\<close> of \<open>calculateTremorScore\<close>.\<close>

definition coefficientOfVariation :: "KeystrokeEvent list \<Rightarrow> real" where
  "coefficientOfVariation keystrokes =
     js_mul (js_div (real_of_int (calculateKeystrokeDurationStdDev keystrokes))
                    (real_of_int (calculateAverageKeystrokeDuration keystrokes))) 100"

definition calculateTremorScore :: "KeystrokeEvent list \<Rightarrow> int" where
  "calculateTremorScore keystrokes =
     (let mean = calculateAverageKeystrokeDuration keystrokes
      in if mean = 0 then 0
         else min 100 (Math_round (js_mul (coefficientOfVariation keystrokes) 2)))"

subsection \<open>detectFatigue\<close>

definition zeroFatigue :: Fatigue where
  "zeroFatigue = \<lparr>fatigueDetected = False, fatigueScore = 0, earlyWPM = 0, lateWPM = 0\<rparr>"

definition earlyKeystrokes :: "KeystrokeEvent list \<Rightarrow> real \<Rightarrow> real \<Rightarrow> KeystrokeEvent list" where
  "earlyKeystrokes keystrokes startTime thirdDuration =
     filter (\<lambda>k. keyDownTime k < js_add startTime thirdDuration) keystrokes"

definition lateKeystrokes :: "KeystrokeEvent list \<Rightarrow> real \<Rightarrow> real \<Rightarrow> KeystrokeEvent list" where
  "lateKeystrokes keystrokes startTime thirdDuration =
     filter (\<lambda>k. keyDownTime k > js_add startTime (js_mul 2 thirdDuration)) keystrokes"

definition detectFatigue :: "KeystrokeEvent list \<Rightarrow> real \<Rightarrow> real \<Rightarrow> Fatigue" where
  "detectFatigue keystrokes startTime endTime =
     (if length keystrokes < 10 then zeroFatigue
      else let totalDuration = js_sub endTime startTime;
               thirdDuration = js_div totalDuration 3;
               early = earlyKeystrokes keystrokes startTime thirdDuration;
               late = lateKeystrokes keystrokes startTime thirdDuration
           in if length early = 0 \<or> length late = 0 then zeroFatigue
              else let eWPM = calculateWPM (real (length early)) thirdDuration;
                       lWPM = calculateWPM (real (length late)) thirdDuration;
                       decline = (if eWPM > 0
                                  then js_mul (js_div (js_sub (real_of_int eWPM) (real_of_int lWPM))
                                                      (real_of_int eWPM)) 100
                                  else 0)
                   in \<lparr>fatigueDetected = decline > 20,
                       fatigueScore = max 0 (Math_round decline),
                       earlyWPM = Math_round (real_of_int eWPM),
                       lateWPM = Math_round (real_of_int lWPM)\<rparr>)"

subsection \<open>calculatePerformanceMetrics\<close>

text \<open>
  The locals \<open>duration\<close>, \<open>accuracy\<close>, \<open>wpm\<close>, \<open>correctKeystrokes\<close> and
  \<open>incorrectKeystrokes\<close> of the source are written \<open>dur\<close>, \<open>acc\<close>, \<open>w\<close>,
  \<open>correctK\<close> and \<open>incorrectK\<close>, the source's names being those of record fields
  here; for the same reason the record's \<open>fatigueDetected\<close> and \<open>fatigueScore\<close> carry
  the prefix \<open>metrics\<close>.
\<close>

definition calculatePerformanceMetrics ::
  "'c list \<Rightarrow> 'c list \<Rightarrow> KeystrokeEvent list \<Rightarrow> real \<Rightarrow> real \<Rightarrow> PerformanceMetrics" where
  "calculatePerformanceMetrics typedText referenceText keystrokes startTime endTime =
     (let dur = js_sub endTime startTime;
          acc = calculateAccuracy typedText referenceText;
          w = calculateWPM (real (length typedText)) dur;
          avgDuration = calculateAverageKeystrokeDuration keystrokes;
          stdDev = calculateKeystrokeDurationStdDev keystrokes;
          tremorScore = calculateTremorScore keystrokes;
          fatigue = detectFatigue keystrokes startTime endTime;
          correctK = int (length (filter isCorrect keystrokes));
          incorrectK = int (length keystrokes) - correctK
      in \<lparr>wpm = w,
          accuracy = acc,
          errorRate = 100 - acc,
          totalKeystrokes = int (length keystrokes),
          correctKeystrokes = correctK,
          incorrectKeystrokes = incorrectK,
          averageKeystrokeDuration = avgDuration,
          keystrokeDurationStdDev = stdDev,
          tremorSeverityScore = tremorScore,
          metricsFatigueDetected = fatigueDetected fatigue,
          metricsFatigueScore = fatigueScore fatigue\<rparr>)"

subsection \<open>Recording a keystroke (handleKeyUp in src/app/page.tsx)\<close>

text \<open>
  The page builds every event in \<open>handleKeyUp\<close>: both timestamps are readings of
  \<open>Date.now()\<close>, and the duration is their difference.
\<close>

definition keystrokeEvent :: "string \<Rightarrow> real \<Rightarrow> real \<Rightarrow> bool \<Rightarrow> nat \<Rightarrow> KeystrokeEvent" where
  "keystrokeEvent k currentKeyDownTime upTime correct currentCharIndex =
     \<lparr>key = k, keyDownTime = currentKeyDownTime, keyUpTime = Some upTime,
      duration = Some (js_sub upTime currentKeyDownTime), isCorrect = correct,
      characterIndex = currentCharIndex\<rparr>"

subsection \<open>Sample sessions\<close>

text \<open>
  Sessions built with \<open>keystrokeEvent\<close>, for evaluating the functions. The time window
  used with the first two is \<open>[0, 3000]\<close>, whose thirds end at 1000 and 2000:
  \<open>steadySession\<close> has six keystrokes in the first third and four in the last,
  \<open>earlySession\<close> has all twelve in the first third. \<open>slowingSession\<close> goes with the
  window \<open>[0, 6300]\<close> and has seven keystrokes in the first third and three in the
  last. \<open>epochSession\<close> has timestamps of the size \<open>Date.now()\<close> returns, twelve in the
  first third and one in the last third of a window of 1280 ms. The next two sessions have the durations 57, 103 and 12, 8, 11, 10. The last
  one has key-up readings before the key-down readings, as a clock set back between
  them gives, and so the durations -1 and -3.
\<close>

definition steadySession :: "KeystrokeEvent list" where
  "steadySession = map (\<lambda>t. keystrokeEvent ''a'' t (t + 80) True 0)
     [100, 200, 300, 400, 500, 600, 2500, 2600, 2700, 2800]"

definition earlySession :: "KeystrokeEvent list" where
  "earlySession = map (\<lambda>t. keystrokeEvent ''a'' t (t + 80) True 0)
     [50, 100, 150, 200, 250, 300, 350, 400, 450, 500, 550, 600]"

definition slowingSession :: "KeystrokeEvent list" where
  "slowingSession = map (\<lambda>t. keystrokeEvent ''a'' t (t + 80) True 0)
     [100, 200, 300, 400, 500, 600, 700, 5000, 5500, 6000]"

definition epochSession :: "KeystrokeEvent list" where
  "epochSession = map (\<lambda>t. keystrokeEvent ''a'' t (t + 80) True 0)
     [1700000000010, 1700000000020, 1700000000030, 1700000000040, 1700000000050,
      1700000000060, 1700000000070, 1700000000080, 1700000000090, 1700000000100,
      1700000000110, 1700000000120, 1700000001000]"

definition twoKeysSession :: "KeystrokeEvent list" where
  "twoKeysSession = [keystrokeEvent ''a'' 0 57 True 0, keystrokeEvent ''b'' 1000 1103 True 1]"

definition fourKeysSession :: "KeystrokeEvent list" where
  "fourKeysSession =
     [keystrokeEvent ''a'' 0 12 True 0, keystrokeEvent ''b'' 100 108 True 1,
      keystrokeEvent ''c'' 200 211 True 2, keystrokeEvent ''d'' 300 310 True 3]"

definition backwardsClockSession :: "KeystrokeEvent list" where
  "backwardsClockSession =
     [keystrokeEvent ''a'' 1000 999 True 0, keystrokeEvent ''b'' 2000 1997 True 1]"

subsection \<open>The standard deviation with every intermediate rounded\<close>

text \<open>
  The computation as the specification words it, over the list of the valid durations:
  the mean is rounded, the population variance around the rounded mean is rounded, and
  so is its square root. It is stated in exact arithmetic and serves for comparison with
  \<open>calculateKeystrokeDurationStdDev\<close> only.
\<close>

definition stdDev_every_intermediate_rounded :: "real list \<Rightarrow> int" where
  "stdDev_every_intermediate_rounded ds =
     (if ds = [] then 0
      else let mean = round (sum_list ds / real (length ds));
               variance = round ((\<Sum>d\<leftarrow>ds. (d - real_of_int mean)\<^sup>2) / real (length ds))
           in round (sqrt (real_of_int variance)))"

section \<open>Double-precision rounding\<close>

text \<open>
  Powers of two and the binary exponent, with the equations by which they are
  evaluated; then the rounding itself: it goes to the nearest multiple of the unit in
  the last place, it is monotone, it keeps the sign, it leaves the integers up to
  \<open>2^53\<close> and its own values as they are, and rounding a value of \<open>fl\<close> to the nearest
  integer with \<open>Math.round\<close> gives a double again.
\<close>

lemma pow2_pos [simp]: "0 < pow2 e"
  by (simp add: pow2_def)

lemma pow2_add: "pow2 (a + b) = pow2 a * pow2 b"
  by (simp add: pow2_def powr_add)

lemma pow2_0 [simp]: "pow2 0 = 1"
  by (simp add: pow2_def)

lemma pow2_le_iff [simp]: "pow2 a \<le> pow2 b \<longleftrightarrow> a \<le> b"
  by (simp add: pow2_def)

lemma pow2_less_iff [simp]: "pow2 a < pow2 b \<longleftrightarrow> a < b"
  by (simp add: pow2_def)

lemma pow2_nat: "pow2 (int n) = 2 ^ n"
  by (simp add: pow2_def powr_realpow)

lemma pow2_nonneg [simp]: "0 \<le> pow2 e"
  by (simp add: pow2_def)

lemma pow2_neq0 [simp]: "pow2 e \<noteq> 0"
  using pow2_pos [of e] by linarith

lemma pow2_Suc: "pow2 (k + 1) = 2 * pow2 k"
  by (simp add: pow2_def powr_add)

lemma pow2_minus: "pow2 (- e) = 1 / pow2 e"
proof -
  have "pow2 (- e) * pow2 e = 1"
    using pow2_add [of "- e" e] by simp
  then show ?thesis by (simp add: eq_divide_eq)
qed

lemma pow2_code [code]: "pow2 e = (if 0 \<le> e then 2 ^ nat e else 1 / 2 ^ nat (- e))"
proof (cases "0 \<le> e")
  case True
  then have "pow2 e = pow2 (int (nat e))" by simp
  also have "\<dots> = 2 ^ nat e" by (rule pow2_nat)
  finally show ?thesis using True by simp
next
  case False
  then have "pow2 (- e) = pow2 (int (nat (- e)))" by simp
  also have "\<dots> = 2 ^ nat (- e)" by (rule pow2_nat)
  finally have neg: "pow2 (- e) = 2 ^ nat (- e)" .
  have "pow2 e = 1 / pow2 (- e)"
    using pow2_minus [of "- e"] by simp
  with neg False show ?thesis by simp
qed

lemma expo_iff: "0 < x \<Longrightarrow> expo x = e \<longleftrightarrow> pow2 e \<le> x \<and> x < pow2 (e + 1)"
  using floor_log_eq_powr_iff [of x 2 e] by (simp add: expo_def pow2_def)

lemma expo_lower: "0 < x \<Longrightarrow> pow2 (expo x) \<le> x"
  using expo_iff [of x "expo x"] by simp

lemma expo_upper: "0 < x \<Longrightarrow> x < pow2 (expo x + 1)"
  using expo_iff [of x "expo x"] by simp

lemma expo_eqI: "pow2 e \<le> x \<Longrightarrow> x < pow2 (e + 1) \<Longrightarrow> expo x = e"
proof -
  assume a: "pow2 e \<le> x" and b: "x < pow2 (e + 1)"
  have "0 < x" using a pow2_pos [of e] by linarith
  then show ?thesis using a b by (simp add: expo_iff)
qed

lemma expo_mono: "0 < x \<Longrightarrow> x \<le> y \<Longrightarrow> expo x \<le> expo y"
  by (simp add: expo_def floor_mono)

lemma expo_code [code]:
  "expo x = (if x \<le> 0 then 0
             else if 2 \<le> x then expo (x / 2) + 1
             else if x < 1 then expo (2 * x) - 1
             else 0)"
proof (cases "0 < x")
  case False
  then show ?thesis by (simp add: expo_def)
next
  case True
  show ?thesis
  proof (cases "2 \<le> x")
    case big: True
    define k where "k = expo (x / 2)"
    have pos: "0 < x / 2" using True by simp
    have "pow2 k \<le> x / 2" and "x / 2 < pow2 (k + 1)"
      unfolding k_def using expo_lower [OF pos] expo_upper [OF pos] by simp_all
    then have "pow2 (k + 1) \<le> x" and "x < pow2 (k + 1 + 1)"
      using pow2_Suc [of k] pow2_Suc [of "k + 1"] by linarith+
    then have "expo x = k + 1" by (rule expo_eqI)
    with True big show ?thesis by (simp add: k_def)
  next
    case notbig: False
    show ?thesis
    proof (cases "x < 1")
      case small: True
      define k where "k = expo (2 * x)"
      have pos: "0 < 2 * x" using True by simp
      have "pow2 k \<le> 2 * x" and "2 * x < pow2 (k + 1)"
        unfolding k_def using expo_lower [OF pos] expo_upper [OF pos] by simp_all
      then have "pow2 (k - 1) \<le> x" and "x < pow2 (k - 1 + 1)"
        using pow2_Suc [of "k - 1"] pow2_Suc [of k] by simp_all
      then have "expo x = k - 1" by (rule expo_eqI)
      with True notbig small show ?thesis by (simp add: k_def)
    next
      case False
      have "pow2 0 \<le> x" and "x < pow2 (0 + 1)"
        using False notbig pow2_Suc [of 0] by simp_all
      then have "expo x = 0" by (rule expo_eqI)
      with True notbig False show ?thesis by simp
    qed
  qed
qed

lemma rne_of_int [simp]: "rne (real_of_int k) = k"
  by (simp add: rne_def)

lemma rne_cases: "rne x = \<lfloor>x\<rfloor> \<or> rne x = \<lfloor>x\<rfloor> + 1"
  by (simp add: rne_def Let_def)

lemma rne_mono: "x \<le> y \<Longrightarrow> rne x \<le> rne y"
proof -
  assume le: "x \<le> y"
  have fm: "\<lfloor>x\<rfloor> \<le> \<lfloor>y\<rfloor>" using le by (rule floor_mono)
  show ?thesis
  proof (cases "\<lfloor>x\<rfloor> = \<lfloor>y\<rfloor>")
    case True
    then show ?thesis using le by (auto simp: rne_def Let_def)
  next
    case False
    with fm have "\<lfloor>x\<rfloor> + 1 \<le> \<lfloor>y\<rfloor>" by simp
    moreover have "rne x \<le> \<lfloor>x\<rfloor> + 1" using rne_cases [of x] by auto
    moreover have "\<lfloor>y\<rfloor> \<le> rne y" using rne_cases [of y] by auto
    ultimately show ?thesis by linarith
  qed
qed

lemma rne_ge: "real_of_int k \<le> x \<Longrightarrow> k \<le> rne x"
  using rne_mono [of "real_of_int k" x] by simp

lemma rne_le: "x \<le> real_of_int k \<Longrightarrow> rne x \<le> k"
  using rne_mono [of x "real_of_int k"] by simp


lemma pow2_int: "0 \<le> e \<Longrightarrow> pow2 e = real_of_int (2 ^ nat e)"
  by (simp add: pow2_code)

lemma pow2_split: "pow2 e = real_of_int (2 ^ 52) * pow2 (e - 52)"
  using pow2_add [of 52 "e - 52"] pow2_int [of 52] by simp

lemma pow2_split_Suc: "pow2 (e + 1) = real_of_int (2 ^ 53) * pow2 (e - 52)"
  using pow2_add [of 53 "e - 52"] pow2_int [of 53] by (simp add: add.commute)

lemma fl_0 [simp]: "fl 0 = 0"
  by (simp add: fl_def)

lemma fl_nonzero:
  "x \<noteq> 0 \<Longrightarrow> fl x = real_of_int (rne (x / pow2 (expo \<bar>x\<bar> - 52))) * pow2 (expo \<bar>x\<bar> - 52)"
  by (simp add: fl_def Let_def)

lemma fl_grid_ge:
  assumes "x \<noteq> 0" and "real_of_int k * pow2 (expo \<bar>x\<bar> - 52) \<le> x"
  shows "real_of_int k * pow2 (expo \<bar>x\<bar> - 52) \<le> fl x"
proof -
  let ?u = "pow2 (expo \<bar>x\<bar> - 52)"
  have "real_of_int k \<le> x / ?u" using assms(2) by (simp add: le_divide_eq)
  then have "k \<le> rne (x / ?u)" by (rule rne_ge)
  then have "real_of_int k * ?u \<le> real_of_int (rne (x / ?u)) * ?u" by simp
  then show ?thesis by (simp only: fl_nonzero [OF assms(1)])
qed

lemma fl_grid_le:
  assumes "x \<noteq> 0" and "x \<le> real_of_int k * pow2 (expo \<bar>x\<bar> - 52)"
  shows "fl x \<le> real_of_int k * pow2 (expo \<bar>x\<bar> - 52)"
proof -
  let ?u = "pow2 (expo \<bar>x\<bar> - 52)"
  have "x / ?u \<le> real_of_int k" using assms(2) by (simp add: divide_le_eq)
  then have "rne (x / ?u) \<le> k" by (rule rne_le)
  then have "real_of_int (rne (x / ?u)) * ?u \<le> real_of_int k * ?u" by simp
  then show ?thesis by (simp only: fl_nonzero [OF assms(1)])
qed

lemma fl_pos_lower: assumes "0 < x" shows "pow2 (expo x) \<le> fl x"
proof -
  have "real_of_int (2 ^ 52) * pow2 (expo \<bar>x\<bar> - 52) \<le> x"
    using expo_lower [OF assms] assms by (simp only: pow2_split [symmetric] abs_of_pos)
  then have "real_of_int (2 ^ 52) * pow2 (expo \<bar>x\<bar> - 52) \<le> fl x"
    using assms by (intro fl_grid_ge) simp_all
  then show ?thesis using assms by (simp only: pow2_split [symmetric] abs_of_pos)
qed

lemma fl_pos_upper: assumes "0 < x" shows "fl x \<le> pow2 (expo x + 1)"
proof -
  have "x \<le> real_of_int (2 ^ 53) * pow2 (expo \<bar>x\<bar> - 52)"
    using expo_upper [OF assms] assms by (simp only: pow2_split_Suc [symmetric] abs_of_pos)
  then have "fl x \<le> real_of_int (2 ^ 53) * pow2 (expo \<bar>x\<bar> - 52)"
    using assms by (intro fl_grid_le) simp_all
  then show ?thesis using assms by (simp only: pow2_split_Suc [symmetric] abs_of_pos)
qed

lemma fl_neg_upper: assumes "x < 0" shows "fl x \<le> - pow2 (expo \<bar>x\<bar>)"
proof -
  have pos: "0 < \<bar>x\<bar>" using assms by simp
  have "x \<le> - pow2 (expo \<bar>x\<bar>)"
    using expo_lower [OF pos] assms by simp
  then have "x \<le> real_of_int (- (2 ^ 52)) * pow2 (expo \<bar>x\<bar> - 52)"
    using pow2_split [of "expo \<bar>x\<bar>"] by simp
  then have "fl x \<le> real_of_int (- (2 ^ 52)) * pow2 (expo \<bar>x\<bar> - 52)"
    using assms by (intro fl_grid_le) simp_all
  then show ?thesis using pow2_split [of "expo \<bar>x\<bar>"] by simp
qed

lemma fl_neg_lower: assumes "x < 0" shows "- pow2 (expo \<bar>x\<bar> + 1) \<le> fl x"
proof -
  have pos: "0 < \<bar>x\<bar>" using assms by simp
  have "- pow2 (expo \<bar>x\<bar> + 1) \<le> x"
    using expo_upper [OF pos] assms by simp
  then have "real_of_int (- (2 ^ 53)) * pow2 (expo \<bar>x\<bar> - 52) \<le> x"
    using pow2_split_Suc [of "expo \<bar>x\<bar>"] by simp
  then have "real_of_int (- (2 ^ 53)) * pow2 (expo \<bar>x\<bar> - 52) \<le> fl x"
    using assms by (intro fl_grid_ge) simp_all
  then show ?thesis using pow2_split_Suc [of "expo \<bar>x\<bar>"] by simp
qed

lemma fl_pos: "0 < x \<Longrightarrow> 0 < fl x"
  using fl_pos_lower [of x] pow2_pos [of "expo x"] by linarith

lemma fl_neg: "x < 0 \<Longrightarrow> fl x < 0"
  using fl_neg_upper [of x] pow2_pos [of "expo \<bar>x\<bar>"] by linarith

lemma fl_nonneg: "0 \<le> x \<Longrightarrow> 0 \<le> fl x"
  using fl_pos [of x] by (cases "x = 0") auto

lemma fl_nonpos: "x \<le> 0 \<Longrightarrow> fl x \<le> 0"
  using fl_neg [of x] by (cases "x = 0") auto

lemma fl_mono_same_expo:
  assumes "x \<noteq> 0" and "y \<noteq> 0" and "expo \<bar>x\<bar> = expo \<bar>y\<bar>" and "x \<le> y"
  shows "fl x \<le> fl y"
proof -
  let ?u = "pow2 (expo \<bar>y\<bar> - 52)"
  have "x / ?u \<le> y / ?u" using assms(4) by (rule divide_right_mono) simp
  then have "rne (x / ?u) \<le> rne (y / ?u)" by (rule rne_mono)
  then have "real_of_int (rne (x / ?u)) * ?u \<le> real_of_int (rne (y / ?u)) * ?u" by simp
  then show ?thesis
    by (simp only: fl_nonzero [OF assms(1)] fl_nonzero [OF assms(2)] assms(3))
qed

lemma fl_mono: assumes "x \<le> y" shows "fl x \<le> fl y"
proof -
  consider "0 < x" | "y < 0" | "x \<le> 0" "0 \<le> y" using assms by linarith
  then show ?thesis
  proof cases
    case 1
    then have ypos: "0 < y" using assms by simp
    have le: "expo x \<le> expo y" using 1 assms by (rule expo_mono)
    show ?thesis
    proof (cases "expo x = expo y")
      case True
      then show ?thesis using 1 ypos assms by (intro fl_mono_same_expo) simp_all
    next
      case False
      with le have "expo x + 1 \<le> expo y" by simp
      then have "pow2 (expo x + 1) \<le> pow2 (expo y)" by simp
      then show ?thesis using fl_pos_upper [OF 1] fl_pos_lower [OF ypos] by linarith
    qed
  next
    case 2
    then have xneg: "x < 0" using assms by simp
    have "0 < \<bar>y\<bar>" and "\<bar>y\<bar> \<le> \<bar>x\<bar>" using 2 assms by simp_all
    then have le: "expo \<bar>y\<bar> \<le> expo \<bar>x\<bar>" by (rule expo_mono)
    show ?thesis
    proof (cases "expo \<bar>x\<bar> = expo \<bar>y\<bar>")
      case True
      then show ?thesis using 2 xneg assms by (intro fl_mono_same_expo) simp_all
    next
      case False
      with le have "expo \<bar>y\<bar> + 1 \<le> expo \<bar>x\<bar>" by simp
      then have "pow2 (expo \<bar>y\<bar> + 1) \<le> pow2 (expo \<bar>x\<bar>)" by simp
      then show ?thesis using fl_neg_upper [OF xneg] fl_neg_lower [OF 2] by linarith
    qed
  next
    case 3
    then show ?thesis using fl_nonpos [of x] fl_nonneg [of y] by linarith
  qed
qed

lemma fl_fix_grid:
  assumes "x \<noteq> 0" and "x / pow2 (expo \<bar>x\<bar> - 52) = real_of_int k"
  shows "fl x = x"
proof -
  have "fl x = real_of_int (rne (real_of_int k)) * pow2 (expo \<bar>x\<bar> - 52)"
    by (simp only: fl_nonzero [OF assms(1)] assms(2))
  also have "\<dots> = x / pow2 (expo \<bar>x\<bar> - 52) * pow2 (expo \<bar>x\<bar> - 52)"
    using assms(2) by simp
  also have "\<dots> = x" by simp
  finally show ?thesis .
qed


lemma fl_abs_bounds:
  assumes "z \<noteq> 0"
  shows "pow2 (expo \<bar>z\<bar>) \<le> \<bar>fl z\<bar>" and "\<bar>fl z\<bar> \<le> pow2 (expo \<bar>z\<bar> + 1)"
proof -
  consider "0 < z" | "z < 0" using assms by linarith
  then have "pow2 (expo \<bar>z\<bar>) \<le> \<bar>fl z\<bar> \<and> \<bar>fl z\<bar> \<le> pow2 (expo \<bar>z\<bar> + 1)"
  proof cases
    case 1
    then show ?thesis
      using fl_pos_lower [OF 1] fl_pos_upper [OF 1] fl_pos [OF 1] by simp
  next
    case 2
    then show ?thesis
      using fl_neg_lower [OF 2] fl_neg_upper [OF 2] fl_neg [OF 2] by simp
  qed
  then show "pow2 (expo \<bar>z\<bar>) \<le> \<bar>fl z\<bar>" and "\<bar>fl z\<bar> \<le> pow2 (expo \<bar>z\<bar> + 1)"
    by simp_all
qed

lemma fl_neq0: "z \<noteq> 0 \<Longrightarrow> fl z \<noteq> 0"
  using fl_pos [of z] fl_neg [of z] by (cases "0 < z") auto

lemma expo_1 [simp]: "expo 1 = 0"
  by (rule expo_eqI) (simp_all add: pow2_Suc [of 0, simplified])

lemma fl_of_int:
  assumes "\<bar>n\<bar> \<le> 2 ^ 53"
  shows "fl (real_of_int n) = real_of_int n"
proof (cases "n = 0")
  case True
  then show ?thesis by simp
next
  case False
  define a where "a = \<bar>real_of_int n\<bar>"
  define e where "e = expo a"
  have a1: "1 \<le> a" using False by (simp add: a_def)
  then have apos: "0 < a" by simp
  have "expo 1 \<le> expo a" using a1 by (intro expo_mono) simp_all
  then have e0: "0 \<le> e" by (simp add: e_def)
  have "a \<le> real_of_int (2 ^ 53)"
    unfolding a_def using assms by (metis of_int_abs of_int_le_iff)
  then have a53: "a \<le> pow2 53" by (simp add: pow2_int)
  have lower: "pow2 e \<le> a" unfolding e_def using apos by (rule expo_lower)
  with a53 have "pow2 e \<le> pow2 53" by linarith
  then have e53: "e \<le> 53" by simp
  have nz: "real_of_int n \<noteq> 0" using False by simp
  show ?thesis
  proof (cases "e \<le> 52")
    case True
    have "pow2 (e - 52) = 1 / pow2 (52 - e)"
      using pow2_minus [of "52 - e"] by simp
    also have "pow2 (52 - e) = real_of_int (2 ^ nat (52 - e))"
      using True by (intro pow2_int) simp
    finally have "real_of_int n / pow2 (e - 52) = real_of_int (n * 2 ^ nat (52 - e))"
      by simp
    then show ?thesis
      using nz unfolding e_def a_def by (rule fl_fix_grid [rotated])
  next
    case False
    with e53 have e: "e = 53" by simp
    with lower a53 have "a = pow2 53" by simp
    then have "a = real_of_int (2 ^ 53)" by (simp add: pow2_int)
    then have "\<bar>n\<bar> = 2 ^ 53" unfolding a_def by (metis of_int_abs of_int_eq_iff)
    then have "n = 2 ^ 53 \<or> n = - (2 ^ 53)" by linarith
    moreover have "pow2 (e - 52) = 2" using e pow2_Suc [of 0] by simp
    ultimately have "real_of_int n / pow2 (e - 52) = real_of_int (n div 2)"
      by auto
    then show ?thesis
      using nz unfolding e_def a_def by (rule fl_fix_grid [rotated])
  qed
qed

lemma fl_idem [simp]: "fl (fl z) = fl z"
proof (cases "z = 0")
  case True
  then show ?thesis by simp
next
  case False
  define e where "e = expo \<bar>z\<bar>"
  define m where "m = rne (z / pow2 (e - 52))"
  have flz: "fl z = real_of_int m * pow2 (e - 52)"
    unfolding m_def e_def using False by (rule fl_nonzero)
  have nz: "fl z \<noteq> 0" using False by (rule fl_neq0)
  have lo: "pow2 e \<le> \<bar>fl z\<bar>" and hi: "\<bar>fl z\<bar> \<le> pow2 (e + 1)"
    unfolding e_def using fl_abs_bounds [OF False] by simp_all
  show ?thesis
  proof (cases "\<bar>fl z\<bar> < pow2 (e + 1)")
    case True
    with lo have "expo \<bar>fl z\<bar> = e" by (rule expo_eqI)
    moreover have "fl z / pow2 (e - 52) = real_of_int m" by (simp add: flz)
    ultimately show ?thesis using nz by (intro fl_fix_grid [of _ m]) simp_all
  next
    case False
    with hi have eq: "\<bar>fl z\<bar> = pow2 (e + 1)" by simp
    have "pow2 (e + 1) \<le> \<bar>fl z\<bar>" and "\<bar>fl z\<bar> < pow2 (e + 1 + 1)"
      using eq by simp_all
    then have ex: "expo \<bar>fl z\<bar> = e + 1" by (rule expo_eqI)
    have "pow2 (e + 1) = real_of_int (2 ^ 52) * pow2 (e + 1 - 52)"
      by (rule pow2_split)
    then have "\<bar>fl z\<bar> / pow2 (e + 1 - 52) = real_of_int (2 ^ 52)"
      using eq by simp
    then have "fl z / pow2 (e + 1 - 52) = real_of_int (2 ^ 52)
        \<or> fl z / pow2 (e + 1 - 52) = real_of_int (- (2 ^ 52))"
      by (cases "0 \<le> fl z") (simp_all add: abs_if split: if_splits)
    then obtain k where "fl z / pow2 (e + 1 - 52) = real_of_int k" by blast
    then have "fl z / pow2 (expo \<bar>fl z\<bar> - 52) = real_of_int k" by (simp only: ex)
    with nz show ?thesis by (rule fl_fix_grid)
  qed
qed

lemma fl_large_int:
  assumes "pow2 52 \<le> \<bar>fl z\<bar>"
  shows "\<exists>k. fl z = real_of_int k"
proof -
  have nz: "z \<noteq> 0" using assms pow2_pos [of 52] by (cases "z = 0") auto
  define e where "e = expo \<bar>z\<bar>"
  show ?thesis
  proof (cases "52 \<le> e")
    case True
    then have "pow2 (e - 52) = real_of_int (2 ^ nat (e - 52))"
      by (intro pow2_int) simp
    then have "fl z = real_of_int (rne (z / pow2 (e - 52)) * 2 ^ nat (e - 52))"
      unfolding e_def using fl_nonzero [OF nz] by simp
    then show ?thesis by blast
  next
    case False
    then have "pow2 (e + 1) \<le> pow2 52" by simp
    with fl_abs_bounds(2) [OF nz] assms have "\<bar>fl z\<bar> = pow2 52"
      unfolding e_def by linarith
    then have "\<bar>fl z\<bar> = real_of_int (2 ^ 52)" by (simp add: pow2_int)
    then have "fl z = real_of_int (2 ^ 52) \<or> fl z = real_of_int (- (2 ^ 52))"
      by (cases "0 \<le> fl z") (simp_all add: abs_if split: if_splits)
    then show ?thesis by blast
  qed
qed

lemma fl_round_fl: "fl (real_of_int \<lfloor>fl z + 1 / 2\<rfloor>) = real_of_int \<lfloor>fl z + 1 / 2\<rfloor>"
proof (cases "pow2 52 \<le> \<bar>fl z\<bar>")
  case True
  then obtain k where k: "fl z = real_of_int k" using fl_large_int by blast
  have "\<lfloor>real_of_int k + 1 / 2 :: real\<rfloor> = k" by linarith
  then have "real_of_int \<lfloor>fl z + 1 / 2\<rfloor> = fl z" by (simp add: k)
  then show ?thesis by simp
next
  case False
  then have "\<bar>fl z\<bar> < real_of_int (2 ^ 52)" by (simp add: pow2_int)
  then have "fl z + 1 / 2 < real_of_int (2 ^ 52 + 1)" and "real_of_int (- (2 ^ 52)) \<le> fl z + 1 / 2"
    by (simp_all add: abs_less_iff)
  moreover define n where "n = \<lfloor>fl z + 1 / 2\<rfloor>"
  ultimately have "n < 2 ^ 52 + 1" and "- (2 ^ 52) \<le> n"
    by (simp_all only: floor_less_iff le_floor_iff)
  then have "\<bar>n\<bar> \<le> 2 ^ 53" by simp
  then show ?thesis unfolding n_def by (rule fl_of_int)
qed

section \<open>Auxiliary facts\<close>

text \<open>Evaluating the arithmetic on numerals.\<close>

lemmas js_eval = js_add_def js_sub_def js_mul_def js_div_def fl_def expo_code pow2_code rne_def
  Math_round_def

lemma sqrt_eqI: "0 \<le> y \<Longrightarrow> y * y = x \<Longrightarrow> sqrt x = y"
  by (metis real_sqrt_abs2 abs_of_nonneg)

text \<open>
  The double nearest to one tenth, and two ties above \<open>2^53\<close>, where the doubles are
  the even integers: each goes to the neighbour with the even significand.
\<close>

lemma fl_examples:
  "fl (1 / 10) = 3602879701896397 / 36028797018963968"
  "fl 9007199254740993 = 9007199254740992"
  "fl 9007199254740995 = 9007199254740996"
  by (simp_all add: js_eval)

lemma Math_round_eq: "Math_round x = round x"
  by (simp add: Math_round_def round_def)

lemma fl_1 [simp]: "fl 1 = 1"
  using fl_of_int [of 1] by simp

lemma fl_100 [simp]: "fl 100 = 100"
  using fl_of_int [of 100] by simp

lemma js_div_nonneg: "0 \<le> x \<Longrightarrow> 0 \<le> y \<Longrightarrow> 0 \<le> js_div x y"
  by (simp add: js_div_def fl_nonneg)

lemma js_div_pos: "0 < x \<Longrightarrow> 0 < y \<Longrightarrow> 0 < js_div x y"
  by (simp add: js_div_def fl_pos)

lemma js_div_le_1: "0 < y \<Longrightarrow> x \<le> y \<Longrightarrow> js_div x y \<le> 1"
proof -
  assume "0 < y" and "x \<le> y"
  then have "x / y \<le> 1" by simp
  then have "fl (x / y) \<le> fl 1" by (rule fl_mono)
  then show ?thesis by (simp add: js_div_def)
qed

lemma js_mul_100_le: "x \<le> 1 \<Longrightarrow> js_mul x 100 \<le> 100"
proof -
  assume "x \<le> 1"
  then have "x * 100 \<le> 100" by simp
  then have "fl (x * 100) \<le> fl 100" by (rule fl_mono)
  then show ?thesis by (simp add: js_mul_def)
qed

lemma js_mul_100_nonneg: "0 \<le> x \<Longrightarrow> 0 \<le> js_mul x 100"
  by (simp add: js_mul_def fl_nonneg)

lemma round_between: "0 \<le> x \<Longrightarrow> x \<le> 100 \<Longrightarrow> 0 \<le> round x \<and> round x \<le> 100"
  for x :: real
  using round_mono [of 0 x] round_mono [of x 100] by simp

lemma percentage_between:
  assumes "0 \<le> x" and "x \<le> y" and "0 < y"
  shows "0 \<le> round (js_mul (js_div x y) 100) \<and> round (js_mul (js_div x y) 100) \<le> 100"
proof -
  have "0 \<le> js_div x y" using assms by (simp add: js_div_nonneg)
  moreover have "js_div x y \<le> 1" using assms by (simp add: js_div_le_1)
  ultimately show ?thesis
    by (intro round_between js_mul_100_nonneg js_mul_100_le)
qed

lemma accuracy_loop_count:
  "accuracy_loop t r n i c = c + card {j. i \<le> j \<and> j < n \<and> t ! j = r ! j}"
proof (induction t r n i c rule: accuracy_loop.induct)
  case (1 t r n i c)
  show ?case
  proof (cases "i < n")
    case False
    then have "{j. i \<le> j \<and> j < n \<and> t ! j = r ! j} = {}" by auto
    with False show ?thesis by (simp add: accuracy_loop.simps)
  next
    case True
    have split: "{j. i \<le> j \<and> j < n \<and> t ! j = r ! j}
        = (if t ! i = r ! i then {i} else {}) \<union> {j. Suc i \<le> j \<and> j < n \<and> t ! j = r ! j}"
      using True by (auto simp: Suc_le_eq le_less)
    have fin: "finite {j. Suc i \<le> j \<and> j < n \<and> t ! j = r ! j}" by simp
    have "accuracy_loop t r n i c =
        accuracy_loop t r n (Suc i) (if t ! i = r ! i then Suc c else c)"
      using True by (subst accuracy_loop.simps) simp
    also have "\<dots> = (if t ! i = r ! i then Suc c else c)
         + card {j. Suc i \<le> j \<and> j < n \<and> t ! j = r ! j}"
      using 1 True by simp
    also have "\<dots> = c + card {j. i \<le> j \<and> j < n \<and> t ! j = r ! j}"
      unfolding split using fin by (auto simp: card_insert_if)
    finally show ?thesis .
  qed
qed

lemma matches_le: "card {i. i < n \<and> P i} \<le> n"
proof -
  have "card {i. i < n \<and> P i} \<le> card {..<n}"
    by (rule card_mono) auto
  then show ?thesis by simp
qed

lemma calculateAccuracy_eq:
  "calculateAccuracy t r =
     (if t = [] then 100
      else round (js_mul (js_div (real (card {i. i < min (length t) (length r) \<and> t ! i = r ! i}))
                                 (real (length t))) 100))"
  by (simp add: calculateAccuracy_def accuracy_loop_count Math_round_eq)

lemma calculateAccuracy_bounds:
  "0 \<le> calculateAccuracy t r \<and> calculateAccuracy t r \<le> 100"
proof (cases "t = []")
  case True
  then show ?thesis by (simp add: calculateAccuracy_eq)
next
  case False
  let ?m = "card {i. i < min (length t) (length r) \<and> t ! i = r ! i}"
  have "?m \<le> min (length t) (length r)" by (rule matches_le)
  then have le: "real ?m \<le> real (length t)" by simp
  have pos: "0 < real (length t)" using False by simp
  have "0 \<le> round (js_mul (js_div (real ?m) (real (length t))) 100)
      \<and> round (js_mul (js_div (real ?m) (real (length t))) 100) \<le> 100"
    using le pos by (intro percentage_between) simp_all
  then show ?thesis using False by (simp only: calculateAccuracy_eq if_False)
qed

lemma accuracy_overlong:
  assumes "length r < length t" and "take (length r) t = r"
  shows "calculateAccuracy t r = round (js_mul (js_div (real (length r)) (real (length t))) 100)"
proof -
  have eq: "t ! i = r ! i" if "i < length r" for i
    using that assms(2) by (metis nth_take)
  have "{i. i < min (length t) (length r) \<and> t ! i = r ! i} = {..<length r}"
    using assms(1) eq by (auto simp: min_def)
  moreover have "t \<noteq> []" using assms(1) by auto
  ultimately show ?thesis by (simp add: calculateAccuracy_eq)
qed

text \<open>
  The two sides of the threshold of \<open>round\<close> at 99.5: a quotient of at least 199/200
  is rounded to 100, and a quotient of naturals below 199/200 with a denominator of at
  most \<open>2^32\<close> stays below it.
\<close>

lemma ratio_high:
  assumes "199 * t \<le> 200 * r" and "0 < t"
  shows "100 \<le> round (js_mul (js_div (real r) (real t)) 100)"
proof -
  have c1: "fl (199 / 200) = 8962163258467287 / 9007199254740992"
    by (simp add: js_eval)
  have c2: "fl (8962163258467287 / 9007199254740992 * 100) = 199 / 2"
    by (simp add: js_eval)
  have "real (199 * t) \<le> real (200 * r)" using assms(1) by (simp only: of_nat_le_iff)
  then have "199 / 200 \<le> real r / real t"
    using assms(2) by (simp add: le_divide_eq)
  then have "fl (199 / 200) \<le> js_div (real r) (real t)"
    unfolding js_div_def by (rule fl_mono)
  then have "8962163258467287 / 9007199254740992 * 100 \<le> js_div (real r) (real t) * 100"
    by (simp only: c1)
  then have "fl (8962163258467287 / 9007199254740992 * 100) \<le> js_mul (js_div (real r) (real t)) 100"
    unfolding js_mul_def by (rule fl_mono)
  then have "199 / 2 \<le> js_mul (js_div (real r) (real t)) 100" by (simp only: c2)
  then have "round (199 / 2 :: real) \<le> round (js_mul (js_div (real r) (real t)) 100)"
    by (rule round_mono)
  then show ?thesis by (simp add: round_def)
qed

lemma ratio_low:
  assumes "200 * r < 199 * t" and "t \<le> 2 ^ 32"
  shows "round (js_mul (js_div (real r) (real t)) 100) \<le> 99"
proof -
  have c1: "fl (854698491903 / 858993459200) = 8962163258456801 / 9007199254740992"
    by (simp add: js_eval)
  have c2: "fl (8962163258456801 / 9007199254740992 * 100) = 854698491903 / 8589934592"
    by (simp add: js_eval)
  have tpos: "0 < t" using assms(1) by (cases t) simp_all
  have "200 * r + 1 \<le> 199 * t" using assms(1) by simp
  then have "858993459200 * r + t \<le> 854698491904 * t" using assms(2) by simp
  then have "858993459200 * r \<le> 854698491903 * t" by simp
  then have "real (858993459200 * r) \<le> real (854698491903 * t)" by (simp only: of_nat_le_iff)
  then have "real r / real t \<le> 854698491903 / 858993459200"
    using tpos by (simp add: divide_le_eq)
  then have "js_div (real r) (real t) \<le> fl (854698491903 / 858993459200)"
    unfolding js_div_def by (rule fl_mono)
  then have "js_div (real r) (real t) * 100 \<le> 8962163258456801 / 9007199254740992 * 100"
    by (simp only: c1)
  then have "js_mul (js_div (real r) (real t)) 100 \<le> fl (8962163258456801 / 9007199254740992 * 100)"
    unfolding js_mul_def by (rule fl_mono)
  then have "js_mul (js_div (real r) (real t)) 100 \<le> 854698491903 / 8589934592" by (simp only: c2)
  then have "round (js_mul (js_div (real r) (real t)) 100) \<le> round (854698491903 / 8589934592 :: real)"
    by (rule round_mono)
  then show ?thesis by (simp add: round_def)
qed

section \<open>Accuracy and words per minute\<close>

text \<open>
  Claim C1. \<open>calculateAccuracy\<close> returns 100 for an empty typed text; otherwise it
  returns the rounded percentage of the positions below the shorter of the two lengths
  at which the texts agree, taken over the length of the typed text: the quotient and
  its product with 100 are the code's double-precision operations, in this order.
  \<open>calculateErrorRate\<close> is 100 minus the accuracy. For the typed text "helo" against
  the reference "hello" the accuracy is 75 and the error rate 25.
\<close>

theorem accuracy_contract:
  "calculateAccuracy typed ref =
     (if typed = [] then 100
      else round (js_mul (js_div (real (card {i. i < min (length typed) (length ref)
                                                  \<and> typed ! i = ref ! i}))
                                 (real (length typed))) 100))
   \<and> calculateErrorRate typed ref = 100 - calculateAccuracy typed ref
   \<and> calculateAccuracy ''helo'' ''hello'' = 75
   \<and> calculateErrorRate ''helo'' ''hello'' = 25"
proof -
  have "calculateAccuracy ''helo'' ''hello'' = 75"
    by code_simp
  then show ?thesis
    by (simp add: calculateAccuracy_eq calculateErrorRate_def)
qed

text \<open>
  At a tie the rounding of the quotient decides: 23 agreeing positions of 40 give
  \<open>(23 / 40) * 100 = 57.49999999999999\<close> in double precision and so 57, where the
  exact 57.5 would round to 58.
\<close>

lemma accuracy_23_of_40:
  "calculateAccuracy (replicate 23 CHR ''a'' @ replicate 17 CHR ''b'') (replicate 40 CHR ''a'') = 57
   \<and> calculateErrorRate (replicate 23 CHR ''a'' @ replicate 17 CHR ''b'') (replicate 40 CHR ''a'')
       = 43
   \<and> round (23 / 40 * 100 :: real) = 58"
proof -
  have "calculateAccuracy (replicate 23 CHR ''a'' @ replicate 17 CHR ''b'')
      (replicate 40 CHR ''a'') = 57"
    by code_simp
  then show ?thesis by (simp add: calculateErrorRate_def round_def)
qed

text \<open>
  Claim C6. \<open>calculateWPM\<close> returns 0 for a zero duration, whatever the character
  count; for any other duration it is the character count over 5, divided by the
  duration over 60000, rounded to the nearest integer, each quotient being the code's
  double-precision division.
\<close>

theorem wpm_contract:
  "calculateWPM x 0 = 0
   \<and> (d \<noteq> 0 \<longrightarrow> calculateWPM x d = round (js_div (js_div x 5) (js_div d 60000)))"
  by (simp add: calculateWPM_def Math_round_eq)

theorem wpm_contract_witness:
  "calculateWPM 250 0 = 0 \<and> (60000::real) \<noteq> 0
   \<and> calculateWPM 250 60000 = round (js_div (js_div 250 5) (js_div 60000 60000))
   \<and> calculateWPM 250 60000 = 50"
proof -
  have v: "calculateWPM 250 60000 = 50" by code_simp
  show ?thesis using wpm_contract [of 250 60000] v by simp
qed

text \<open>
  12 characters in 6400 ms: \<open>(12 / 5) / (6400 / 60000) = 22.499999999999996\<close> in double
  precision and so 22, where the exact 22.5 would round to 23.
\<close>

lemma wpm_12_6400:
  "calculateWPM 12 6400 = 22 \<and> round ((12 / 5) / (6400 / 60000) :: real) = 23"
proof -
  have "calculateWPM 12 6400 = 22" by code_simp
  then show ?thesis by (simp add: round_def)
qed

text \<open>
  Claim C7, as amended. For a typed text strictly longer than the reference whose prefix
  of the reference's length is the reference, the accuracy never exceeds 100. For a
  typed text of at most \<open>2^32\<close> units it is strictly below 100 exactly when
  \<open>200 * len(reference) < 199 * len(typed)\<close>, which holds for every typed text of fewer
  than 200 units: once the surplus is at most half a percent of the typed text,
  rounding gives 100. The counterexample is a typed text of 400 units against its own
  first 399.
\<close>

theorem overlong_accuracy:
  assumes "length ref < length typed" and "take (length ref) typed = ref"
  shows "calculateAccuracy typed ref \<le> 100
       \<and> (length typed \<le> 2 ^ 32 \<longrightarrow>
            (calculateAccuracy typed ref < 100 \<longleftrightarrow> 200 * length ref < 199 * length typed))
       \<and> (length typed < 200 \<longrightarrow> calculateAccuracy typed ref < 100)"
proof -
  have acc: "calculateAccuracy typed ref
      = round (js_mul (js_div (real (length ref)) (real (length typed))) 100)"
    using assms by (rule accuracy_overlong)
  have pos: "0 < length typed" using assms(1) by auto
  have low: "calculateAccuracy typed ref < 100"
    if "200 * length ref < 199 * length typed" and "length typed \<le> 2 ^ 32"
    using ratio_low [OF that] acc by simp
  have high: "\<not> calculateAccuracy typed ref < 100"
    if "\<not> 200 * length ref < 199 * length typed"
  proof -
    have "199 * length typed \<le> 200 * length ref" using that by simp
    then have "100 \<le> round (js_mul (js_div (real (length ref)) (real (length typed))) 100)"
      using pos by (rule ratio_high)
    then show ?thesis by (simp only: acc not_less)
  qed
  have short: "200 * length ref < 199 * length typed \<and> length typed \<le> 2 ^ 32"
    if "length typed < 200"
    using that assms(1) by simp
  show ?thesis
    using calculateAccuracy_bounds [of typed ref] low high short by blast
qed

theorem overlong_accuracy_witness:
  "length ''hell'' < length ''hello'' \<and> take (length ''hell'') ''hello'' = ''hell''
   \<and> length ''hello'' \<le> 2 ^ 32 \<and> length ''hello'' < 200
   \<and> 200 * length ''hell'' < 199 * length ''hello''
   \<and> calculateAccuracy ''hello'' ''hell'' < 100"
  using overlong_accuracy [of "''hell''" "''hello''"] by simp

theorem overlong_accuracy_counterexample:
  "length (replicate 399 CHR ''a'') < length (replicate 400 CHR ''a'')
   \<and> take (length (replicate 399 CHR ''a'')) (replicate 400 CHR ''a'') = replicate 399 CHR ''a''
   \<and> \<not> calculateAccuracy (replicate 400 CHR ''a'') (replicate 399 CHR ''a'') < 100"
proof -
  have "calculateAccuracy (replicate 400 CHR ''a'') (replicate 399 CHR ''a'')
        = round (js_mul (js_div (real (length (replicate 399 CHR ''a'')))
                                (real (length (replicate 400 CHR ''a'')))) 100)"
    by (rule accuracy_overlong) simp_all
  moreover have "100 \<le> round (js_mul (js_div (real (399::nat)) (real (400::nat))) 100)"
    by (rule ratio_high) simp_all
  ultimately show ?thesis by simp
qed

section \<open>Keystroke duration statistics and the tremor score\<close>

lemma foldl_js_add_map:
  "foldl (\<lambda>acc k. js_add acc (f k)) a xs = foldl js_add a (map f xs)"
  by (induction xs arbitrary: a) simp_all

lemma valid_durations:
  "map duration_or_0 (validKeystrokes ks)
     = map (the \<circ> duration) (filter (\<lambda>k. duration k \<noteq> None) ks)"
  by (induction ks) (auto simp: validKeystrokes_def duration_or_0_def)

lemma calculateAverageKeystrokeDuration_eq:
  "calculateAverageKeystrokeDuration ks =
     (let ds = map (the \<circ> duration) (filter (\<lambda>k. duration k \<noteq> None) ks)
      in if ds = [] then 0 else round (js_div (js_sum ds) (real (length ds))))"
proof -
  have "foldl (\<lambda>acc k. js_add acc (duration_or_0 k)) 0 (validKeystrokes ks)
      = foldl js_add 0 (map duration_or_0 (validKeystrokes ks))"
    by (rule foldl_js_add_map)
  then have "foldl (\<lambda>acc k. js_add acc (duration_or_0 k)) 0 (validKeystrokes ks)
      = js_sum (map (the \<circ> duration) (filter (\<lambda>k. duration k \<noteq> None) ks))"
    by (simp only: valid_durations js_sum_def)
  then show ?thesis
    unfolding calculateAverageKeystrokeDuration_def Let_def Math_round_eq
    by (simp add: validKeystrokes_def)
qed

lemma calculateKeystrokeDurationStdDev_eq:
  "calculateKeystrokeDurationStdDev ks =
     (let ds = map (the \<circ> duration) (filter (\<lambda>k. duration k \<noteq> None) ks);
          mean = real_of_int (calculateAverageKeystrokeDuration ks)
      in if ds = [] then 0
         else round (Math_sqrt (js_div (js_sum (map (\<lambda>d. js_mul (js_sub d mean) (js_sub d mean)) ds))
                                       (real (length ds)))))"
proof -
  let ?m = "real_of_int (calculateAverageKeystrokeDuration ks)"
  let ?sq = "map (\<lambda>k. let diff = js_sub (duration_or_0 k) ?m in js_mul diff diff)
      (validKeystrokes ks)"
  have "?sq = map (\<lambda>d. js_mul (js_sub d ?m) (js_sub d ?m)) (map duration_or_0 (validKeystrokes ks))"
    by (simp add: Let_def)
  then have sq: "?sq = map (\<lambda>d. js_mul (js_sub d ?m) (js_sub d ?m))
      (map (the \<circ> duration) (filter (\<lambda>k. duration k \<noteq> None) ks))"
    by (simp only: valid_durations)
  have "foldl (\<lambda>acc val. js_add acc val) 0 ?sq = js_sum ?sq"
    by (simp add: js_sum_def)
  then have "foldl (\<lambda>acc val. js_add acc val) 0 ?sq
      = js_sum (map (\<lambda>d. js_mul (js_sub d ?m) (js_sub d ?m))
          (map (the \<circ> duration) (filter (\<lambda>k. duration k \<noteq> None) ks)))"
    by (simp only: sq)
  then show ?thesis
    unfolding calculateKeystrokeDurationStdDev_def Let_def Math_round_eq
    by (simp add: validKeystrokes_def)
qed

lemma js_sum_nonneg_aux:
  "0 \<le> a \<Longrightarrow> (\<And>x. x \<in> set xs \<Longrightarrow> 0 \<le> x) \<Longrightarrow> 0 \<le> foldl js_add a xs"
proof (induction xs arbitrary: a)
  case Nil
  then show ?case by simp
next
  case (Cons x xs)
  have "0 \<le> js_add a x" using Cons.prems by (simp add: js_add_def fl_nonneg)
  then have "0 \<le> foldl js_add (js_add a x) xs"
    by (rule Cons.IH) (simp add: Cons.prems(2))
  then show ?case by simp
qed

lemma js_sum_nonneg: "(\<And>x. x \<in> set xs \<Longrightarrow> 0 \<le> x) \<Longrightarrow> 0 \<le> js_sum xs"
  unfolding js_sum_def by (rule js_sum_nonneg_aux) simp_all

lemma calculateKeystrokeDurationStdDev_nonneg: "0 \<le> calculateKeystrokeDurationStdDev ks"
proof -
  define ds where "ds = map (the \<circ> duration) (filter (\<lambda>k. duration k \<noteq> None) ks)"
  define m where "m = real_of_int (calculateAverageKeystrokeDuration ks)"
  define v where "v = js_div (js_sum (map (\<lambda>d. js_mul (js_sub d m) (js_sub d m)) ds))
      (real (length ds))"
  have "0 \<le> js_sum (map (\<lambda>d. js_mul (js_sub d m) (js_sub d m)) ds)"
    by (rule js_sum_nonneg) (auto simp: js_mul_def fl_nonneg)
  then have "0 \<le> v" by (simp add: v_def js_div_nonneg)
  then have "0 \<le> Math_sqrt v" by (simp add: Math_sqrt_def fl_nonneg)
  then have "round (0::real) \<le> round (Math_sqrt v)" by (rule round_mono)
  then have "0 \<le> round (Math_sqrt v)" by simp
  moreover have "calculateKeystrokeDurationStdDev ks = (if ds = [] then 0 else round (Math_sqrt v))"
    unfolding calculateKeystrokeDurationStdDev_eq Let_def ds_def v_def m_def by simp
  ultimately show ?thesis by simp
qed

lemma calculateAverageKeystrokeDuration_nonneg:
  assumes "\<forall>k\<in>set ks. \<forall>d. duration k = Some d \<longrightarrow> 0 \<le> d"
  shows "0 \<le> calculateAverageKeystrokeDuration ks"
proof -
  define ds where "ds = map (the \<circ> duration) (filter (\<lambda>k. duration k \<noteq> None) ks)"
  have "0 \<le> x" if "x \<in> set ds" for x
    using that assms by (auto simp: ds_def)
  then have "0 \<le> js_sum ds" by (rule js_sum_nonneg)
  then have "0 \<le> js_div (js_sum ds) (real (length ds))" by (simp add: js_div_nonneg)
  then have "round (0::real) \<le> round (js_div (js_sum ds) (real (length ds)))" by (rule round_mono)
  then have "0 \<le> round (js_div (js_sum ds) (real (length ds)))" by simp
  moreover have "calculateAverageKeystrokeDuration ks
      = (if ds = [] then 0 else round (js_div (js_sum ds) (real (length ds))))"
    unfolding calculateAverageKeystrokeDuration_eq Let_def ds_def by simp
  ultimately show ?thesis by simp
qed

text \<open>
  With no negative duration the tremor score is in its documented range from 0 to 100.
\<close>

lemma calculateTremorScore_range:
  assumes "\<forall>k\<in>set ks. \<forall>d. duration k = Some d \<longrightarrow> 0 \<le> d"
  shows "0 \<le> calculateTremorScore ks \<and> calculateTremorScore ks \<le> 100"
proof (cases "calculateAverageKeystrokeDuration ks = 0")
  case True
  then show ?thesis by (simp add: calculateTremorScore_def)
next
  case False
  have "0 \<le> calculateAverageKeystrokeDuration ks"
    using assms by (rule calculateAverageKeystrokeDuration_nonneg)
  with False have pos: "0 \<le> real_of_int (calculateAverageKeystrokeDuration ks)" by simp
  have "0 \<le> real_of_int (calculateKeystrokeDurationStdDev ks)"
    using calculateKeystrokeDurationStdDev_nonneg [of ks] by simp
  then have "0 \<le> js_div (real_of_int (calculateKeystrokeDurationStdDev ks))
      (real_of_int (calculateAverageKeystrokeDuration ks))"
    using pos by (rule js_div_nonneg)
  then have "0 \<le> coefficientOfVariation ks"
    unfolding coefficientOfVariation_def by (rule js_mul_100_nonneg)
  then have "0 \<le> js_mul (coefficientOfVariation ks) 2"
    by (simp add: js_mul_def fl_nonneg)
  then have "round (0::real) \<le> round (js_mul (coefficientOfVariation ks) 2)" by (rule round_mono)
  then have "0 \<le> round (js_mul (coefficientOfVariation ks) 2)" by simp
  with False show ?thesis by (simp add: calculateTremorScore_def Math_round_eq)
qed

lemma round_sqrt_2: "round (sqrt 2) = 1"
proof -
  have "sqrt 2 < sqrt (9 / 4)" by (rule real_sqrt_less_mono) simp
  then have up: "sqrt 2 < 3 / 2" by (simp add: sqrt_eqI [of "3 / 2" "9 / 4"])
  have "sqrt 1 \<le> sqrt 2" by (rule real_sqrt_le_mono) simp
  then have lo: "1 \<le> sqrt 2" by (simp only: real_sqrt_one)
  have "real_of_int 1 > sqrt 2 - 1 / 2" and "real_of_int 1 \<le> sqrt 2 + 1 / 2"
    using up lo by linarith+
  then show ?thesis by (rule round_unique)
qed

lemma fourKeysSession_mean: "calculateAverageKeystrokeDuration fourKeysSession = 10"
  by code_simp

lemma fourKeysSession_stdDev: "calculateKeystrokeDurationStdDev fourKeysSession = 2"
  unfolding calculateKeystrokeDurationStdDev_def fourKeysSession_mean
  apply (simp add: validKeystrokes_def duration_or_0_def fourKeysSession_def keystrokeEvent_def
      Let_def)
  apply (simp add: Math_sqrt_def sqrt_eqI [of "3 / 2" "9 / 4"] js_eval)
  done

lemma twoKeysSession_mean: "calculateAverageKeystrokeDuration twoKeysSession = 80"
  by code_simp

lemma twoKeysSession_stdDev: "calculateKeystrokeDurationStdDev twoKeysSession = 23"
  unfolding calculateKeystrokeDurationStdDev_def twoKeysSession_mean
  apply (simp add: validKeystrokes_def duration_or_0_def twoKeysSession_def keystrokeEvent_def
      Let_def)
  apply (simp add: Math_sqrt_def sqrt_eqI [of 23 529] js_eval)
  done

lemma backwardsClockSession_mean: "calculateAverageKeystrokeDuration backwardsClockSession = - 2"
  by code_simp

lemma backwardsClockSession_stdDev: "calculateKeystrokeDurationStdDev backwardsClockSession = 1"
  unfolding calculateKeystrokeDurationStdDev_def backwardsClockSession_mean
  apply (simp add: validKeystrokes_def duration_or_0_def backwardsClockSession_def
      keystrokeEvent_def Let_def)
  apply (simp add: Math_sqrt_def js_eval)
  done

text \<open>
  Claim C3, as amended. The statistics are taken over the events whose duration is not
  null. With no such event the mean and the standard deviation are both 0. Otherwise
  the mean is the rounded quotient of the sum by the count. The standard deviation is
  the rounded square root of the population variance: the sum of the squared
  differences from the mean already rounded, divided by the count, not by the count
  minus one. The variance is not rounded: only the mean and the square root are.
  Sums, differences, products, quotients and the root are the code's double-precision
  operations.
\<close>

theorem duration_stats:
  "(let ds = map (the \<circ> duration) (filter (\<lambda>k. duration k \<noteq> None) ks);
        n = real (length ds);
        mean = (if ds = [] then 0 else round (js_div (js_sum ds) n));
        variance = js_div (js_sum (map (\<lambda>d. js_mul (js_sub d (real_of_int mean))
                                                  (js_sub d (real_of_int mean))) ds)) n;
        stdDev = (if ds = [] then 0 else round (Math_sqrt variance))
    in calculateAverageKeystrokeDuration ks = mean
       \<and> calculateKeystrokeDurationStdDev ks = stdDev)"
  unfolding calculateKeystrokeDurationStdDev_eq calculateAverageKeystrokeDuration_eq Let_def
  by simp

text \<open>
  The counterexample to the claim as it was worded, with every intermediate rounded: for
  the durations 12, 8, 11, 10 the rounded mean is 10 and the variance 9/4, whose root 3/2
  the code rounds to 2; the root of the rounded variance 2 rounds to 1.
\<close>

theorem duration_stats_counterexample:
  "map duration fourKeysSession = [Some 12, Some 8, Some 11, Some 10]
   \<and> calculateKeystrokeDurationStdDev fourKeysSession = 2
   \<and> stdDev_every_intermediate_rounded [12, 8, 11, 10] = 1
   \<and> calculateKeystrokeDurationStdDev fourKeysSession
       \<noteq> stdDev_every_intermediate_rounded [12, 8, 11, 10]"
proof -
  have d: "map duration fourKeysSession = [Some 12, Some 8, Some 11, Some 10]"
    by code_simp
  have "round (41 / 4 :: real) = 10" and "round (9 / 4 :: real) = 2"
    by (simp_all add: round_def)
  then have s: "stdDev_every_intermediate_rounded [12, 8, 11, 10] = 1"
    by (simp add: stdDev_every_intermediate_rounded_def round_sqrt_2)
  show ?thesis by (simp add: d s fourKeysSession_stdDev)
qed

text \<open>
  Claim C4. The tremor score is documented as a score from 0 to 100 and the claim puts
  it in that range for every keystroke sequence. The code caps it at 100 and has no
  lower clamp: for the durations -1 and -3 the mean is -2, the standard deviation 1,
  the coefficient of variation -50 and the score -100.
\<close>

theorem tremor_score_negative:
  "map duration backwardsClockSession = [Some (- 1), Some (- 3)]
   \<and> calculateAverageKeystrokeDuration backwardsClockSession = - 2
   \<and> calculateKeystrokeDurationStdDev backwardsClockSession = 1
   \<and> coefficientOfVariation backwardsClockSession = - 50
   \<and> calculateTremorScore backwardsClockSession = - 100"
proof -
  have d: "map duration backwardsClockSession = [Some (- 1), Some (- 3)]"
    by code_simp
  have cv: "coefficientOfVariation backwardsClockSession = - 50"
    unfolding coefficientOfVariation_def backwardsClockSession_mean backwardsClockSession_stdDev
    by (simp add: js_eval)
  have "calculateTremorScore backwardsClockSession = - 100"
    unfolding calculateTremorScore_def cv backwardsClockSession_mean Let_def
    by (simp add: js_eval)
  then show ?thesis
    by (simp add: d cv backwardsClockSession_mean backwardsClockSession_stdDev)
qed

text \<open>
  The score at a tie: the durations 57 and 103 have the mean 80 and the standard
  deviation 23, and \<open>((23 / 80) * 100) * 2 = 57.49999999999999\<close> in double precision, so
  the score is 57.
\<close>

lemma tremor_score_57_103:
  "map duration twoKeysSession = [Some 57, Some 103]
   \<and> calculateTremorScore twoKeysSession = 57"
proof -
  have d: "map duration twoKeysSession = [Some 57, Some 103]"
    by code_simp
  have cv: "coefficientOfVariation twoKeysSession = 8092405580431359 / 281474976710656"
    unfolding coefficientOfVariation_def twoKeysSession_mean twoKeysSession_stdDev
    by (simp add: js_eval)
  have "calculateTremorScore twoKeysSession = 57"
    unfolding calculateTremorScore_def cv twoKeysSession_mean Let_def
    by (simp add: js_eval)
  then show ?thesis by (simp add: d)
qed

section \<open>Fatigue analysis\<close>

lemma calculateWPM_nonneg:
  assumes "0 \<le> x" and "0 < d"
  shows "0 \<le> calculateWPM x d"
proof -
  have "0 < js_div d 60000" using assms(2) by (simp add: js_div_pos)
  moreover have "0 \<le> js_div x 5" using assms(1) by (simp add: js_div_nonneg)
  ultimately have "0 \<le> js_div (js_div x 5) (js_div d 60000)"
    by (simp add: js_div_nonneg)
  then have "round (0::real) \<le> round (js_div (js_div x 5) (js_div d 60000))"
    by (rule round_mono)
  then show ?thesis using assms(2) by (simp add: calculateWPM_def Math_round_eq)
qed

text \<open>The result of \<open>calculateWPM\<close> is a double: converting it back costs no rounding.\<close>

lemma calculateWPM_representable:
  "fl (real_of_int (calculateWPM x d)) = real_of_int (calculateWPM x d)"
proof (cases "d = 0")
  case True
  then show ?thesis by (simp add: calculateWPM_def)
next
  case False
  then have "calculateWPM x d = \<lfloor>fl (js_div x 5 / js_div d 60000) + 1 / 2\<rfloor>"
    by (simp add: calculateWPM_def Math_round_def js_div_def [of "js_div x 5"])
  then show ?thesis by (simp only: fl_round_fl)
qed

lemma detectFatigue_unfold:
  "detectFatigue ks s e =
     (if length ks < 10
         \<or> filter (\<lambda>k. keyDownTime k < js_add s (js_div (js_sub e s) 3)) ks = []
         \<or> filter (\<lambda>k. keyDownTime k > js_add s (js_mul 2 (js_div (js_sub e s) 3))) ks = []
      then \<lparr>fatigueDetected = False, fatigueScore = 0, earlyWPM = 0, lateWPM = 0\<rparr>
      else let eW = calculateWPM
                      (real (length (filter (\<lambda>k. keyDownTime k < js_add s (js_div (js_sub e s) 3)) ks)))
                      (js_div (js_sub e s) 3);
               lW = calculateWPM
                      (real (length (filter
                         (\<lambda>k. keyDownTime k > js_add s (js_mul 2 (js_div (js_sub e s) 3))) ks)))
                      (js_div (js_sub e s) 3);
               decline = (if eW > 0
                          then js_mul (js_div (js_sub (real_of_int eW) (real_of_int lW))
                                              (real_of_int eW)) 100
                          else 0)
           in \<lparr>fatigueDetected = decline > 20, fatigueScore = max 0 (round decline),
               earlyWPM = eW, lateWPM = lW\<rparr>)"
  by (simp add: detectFatigue_def zeroFatigue_def earlyKeystrokes_def lateKeystrokes_def
      Math_round_eq Let_def)

lemma fatigueScore_nonneg: "0 \<le> fatigueScore (detectFatigue ks s e)"
  by (simp add: detectFatigue_unfold Let_def)

lemma decline_le_100:
  fixes eW lW :: int
  assumes "0 \<le> lW" and "fl (real_of_int eW) = real_of_int eW"
  shows "(if eW > 0
          then js_mul (js_div (js_sub (real_of_int eW) (real_of_int lW)) (real_of_int eW)) 100
          else 0) \<le> 100"
proof (cases "eW > 0")
  case True
  have "real_of_int eW - real_of_int lW \<le> real_of_int eW" using assms(1) by simp
  then have "fl (real_of_int eW - real_of_int lW) \<le> fl (real_of_int eW)" by (rule fl_mono)
  then have "js_sub (real_of_int eW) (real_of_int lW) \<le> real_of_int eW"
    by (simp only: js_sub_def assms(2))
  moreover have "0 < real_of_int eW" using True by simp
  ultimately have "js_div (js_sub (real_of_int eW) (real_of_int lW)) (real_of_int eW) \<le> 1"
    by (intro js_div_le_1)
  then have "js_mul (js_div (js_sub (real_of_int eW) (real_of_int lW)) (real_of_int eW)) 100
      \<le> 100"
    by (rule js_mul_100_le)
  with True show ?thesis by simp
next
  case False
  then show ?thesis by simp
qed

lemma thirdDuration_pos: "s < e \<Longrightarrow> 0 < js_div (js_sub e s) 3"
  by (simp add: js_div_def js_sub_def fl_pos)

lemma fatigueScore_le_100:
  assumes "s < e"
  shows "fatigueScore (detectFatigue ks s e) \<le> 100"
proof -
  define third where "third = js_div (js_sub e s) 3"
  define eW where
    "eW = calculateWPM (real (length (filter (\<lambda>k. keyDownTime k < js_add s third) ks))) third"
  define lW where
    "lW = calculateWPM
       (real (length (filter (\<lambda>k. keyDownTime k > js_add s (js_mul 2 third)) ks))) third"
  define decline where
    "decline = (if eW > 0
                then js_mul (js_div (js_sub (real_of_int eW) (real_of_int lW)) (real_of_int eW)) 100
                else 0)"
  have third: "0 < third" unfolding third_def using assms by (rule thirdDuration_pos)
  have "0 \<le> lW" unfolding lW_def by (rule calculateWPM_nonneg [OF _ third]) simp
  moreover have "fl (real_of_int eW) = real_of_int eW"
    unfolding eW_def by (rule calculateWPM_representable)
  ultimately have "decline \<le> 100" unfolding decline_def by (rule decline_le_100)
  then have "round decline \<le> round (100::real)" by (rule round_mono)
  then have "max 0 (round decline) \<le> 100" by simp
  moreover have "fatigueScore (detectFatigue ks s e) = 0
      \<or> fatigueScore (detectFatigue ks s e) = max 0 (round decline)"
    by (simp add: detectFatigue_unfold Let_def decline_def eW_def lW_def third_def)
  ultimately show ?thesis by auto
qed

lemma lateWPM_nonneg:
  assumes "s < e"
  shows "0 \<le> lateWPM (detectFatigue ks s e)"
proof -
  have third: "0 < js_div (js_sub e s) 3" using assms by (rule thirdDuration_pos)
  have "0 \<le> calculateWPM
      (real (length (filter
         (\<lambda>k. keyDownTime k > js_add s (js_mul 2 (js_div (js_sub e s) 3))) ks)))
      (js_div (js_sub e s) 3)"
    by (rule calculateWPM_nonneg [OF _ third]) simp
  then show ?thesis by (simp add: detectFatigue_unfold Let_def)
qed

lemma metrics_fatigueScore:
  "metricsFatigueScore (calculatePerformanceMetrics t r ks s e)
     = fatigueScore (detectFatigue ks s e)"
  by (simp add: calculatePerformanceMetrics_def Let_def)

text \<open>The thirds of the windows of the sample sessions, and the rates and declines there.\<close>

lemma window_3000:
  "js_div (js_sub 3000 0) 3 = 1000"
  "js_add 0 1000 = 1000"
  "js_add 0 (js_mul 2 1000) = 2000"
  by (simp_all add: js_eval)

lemma window_6300:
  "js_div (js_sub 6300 0) 3 = 2100"
  "js_add 0 2100 = 2100"
  "js_add 0 (js_mul 2 2100) = 4200"
  by (simp_all add: js_eval)

lemma steady_rates:
  "calculateWPM 6 1000 = 72"
  "calculateWPM 4 1000 = 48"
  "round (js_mul (js_div (js_sub 72 48) 72) 100) = 33"
  "20 < js_mul (js_div (js_sub 72 48) 72) 100"
  unfolding calculateWPM_def Let_def by (simp_all add: js_eval round_def)

lemma slowing_rates:
  "calculateWPM 7 2100 = 40"
  "calculateWPM 3 2100 = 17"
  "round (js_mul (js_div (js_sub 40 17) 40) 100) = 57"
  "20 < js_mul (js_div (js_sub 40 17) 40) 100"
  unfolding calculateWPM_def Let_def by (simp_all add: js_eval round_def)

text \<open>
  Claim C2. For at least 10 events of which some lie in the early group and some in the
  late group, \<open>detectFatigue\<close> splits the window into thirds, takes as early the events
  with key-down time strictly before the end of the first third and as late those
  strictly after the start of the last third, computes the words per minute of each
  group from its number of events over one third of the window, sets the decline to
  the relative drop in percent when the early figure is positive and to 0 otherwise,
  reports fatigue when the decline exceeds 20, and scores the larger of 0 and the rounded
  decline. Every operation is the code's double-precision one.
\<close>

theorem fatigue_analysis:
  assumes "10 \<le> length ks"
    and "filter (\<lambda>k. keyDownTime k < js_add s (js_div (js_sub e s) 3)) ks \<noteq> []"
    and "filter (\<lambda>k. keyDownTime k > js_add s (js_mul 2 (js_div (js_sub e s) 3))) ks \<noteq> []"
  shows "detectFatigue ks s e =
     (let third = js_div (js_sub e s) 3;
          early = filter (\<lambda>k. keyDownTime k < js_add s third) ks;
          late = filter (\<lambda>k. keyDownTime k > js_add s (js_mul 2 third)) ks;
          eW = calculateWPM (real (length early)) third;
          lW = calculateWPM (real (length late)) third;
          decline = (if eW > 0
                     then js_mul (js_div (js_sub (real_of_int eW) (real_of_int lW))
                                         (real_of_int eW)) 100
                     else 0)
      in \<lparr>fatigueDetected = (decline > 20), fatigueScore = max 0 (round decline),
          earlyWPM = eW, lateWPM = lW\<rparr>)"
  using assms by (simp add: detectFatigue_unfold Let_def)

text \<open>
  The witness is the window of 6300 ms with seven early and three late keystrokes: 40
  and 17 words per minute, and a decline of \<open>((40 - 17) / 40) * 100 = 57.49999999999999\<close>
  in double precision, so a score of 57.
\<close>

theorem fatigue_analysis_witness:
  "10 \<le> length slowingSession
   \<and> filter (\<lambda>k. keyDownTime k < js_add 0 (js_div (js_sub 6300 0) 3)) slowingSession \<noteq> []
   \<and> filter (\<lambda>k. keyDownTime k > js_add 0 (js_mul 2 (js_div (js_sub 6300 0) 3))) slowingSession
       \<noteq> []
   \<and> detectFatigue slowingSession 0 6300 =
       \<lparr>fatigueDetected = True, fatigueScore = 57, earlyWPM = 40, lateWPM = 17\<rparr>"
proof -
  have h1: "10 \<le> length slowingSession"
    by (simp add: slowingSession_def)
  have h2: "filter (\<lambda>k. keyDownTime k < js_add 0 (js_div (js_sub 6300 0) 3)) slowingSession \<noteq> []"
    unfolding window_6300 by (simp add: slowingSession_def keystrokeEvent_def)
  have h3: "filter (\<lambda>k. keyDownTime k > js_add 0 (js_mul 2 (js_div (js_sub 6300 0) 3)))
      slowingSession \<noteq> []"
    unfolding window_6300 by (simp add: slowingSession_def keystrokeEvent_def)
  have h4: "detectFatigue slowingSession 0 6300 =
       \<lparr>fatigueDetected = True, fatigueScore = 57, earlyWPM = 40, lateWPM = 17\<rparr>"
    unfolding fatigue_analysis [OF h1 h2 h3] Let_def window_6300
    apply (simp add: slowingSession_def keystrokeEvent_def slowing_rates(1,2))
    apply (simp add: slowing_rates(3,4))
    done
  show ?thesis by (intro conjI h1 h2 h3 h4)
qed

text \<open>
  With timestamps of the size of \<open>Date.now()\<close> the third of the window and the group
  rates are rounded as well: twelve keystrokes in a third of \<open>1280 / 3\<close> ms give
  337.49999999999994 and so 337 words per minute, where the exact 337.5 would round to
  338.
\<close>

lemma epoch_third:
  "js_div (js_sub 1700000001280 1700000000000) 3 = 7505999378950827 / 17592186044416"
  by (simp add: js_eval)

lemma epoch_bounds:
  "js_add 1700000000000 (7505999378950827 / 17592186044416) = 6963200001747627 / 4096"
  "js_add 1700000000000 (js_mul 2 (7505999378950827 / 17592186044416)) = 6963200003495253 / 4096"
  by (simp_all add: js_eval)

lemma epoch_rates:
  "calculateWPM 12 (7505999378950827 / 17592186044416) = 337"
  "calculateWPM 1 (7505999378950827 / 17592186044416) = 28"
  unfolding calculateWPM_def Let_def by (simp_all add: js_eval)

lemma epoch_decline:
  "round (js_mul (js_div (js_sub 337 28) 337) 100) = 92"
  "20 < js_mul (js_div (js_sub 337 28) 337) 100"
  by (simp_all add: js_eval round_def)

lemma fatigue_epoch_window:
  "detectFatigue epochSession 1700000000000 1700000001280 =
     \<lparr>fatigueDetected = True, fatigueScore = 92, earlyWPM = 337, lateWPM = 28\<rparr>"
  unfolding detectFatigue_def earlyKeystrokes_def lateKeystrokes_def Let_def epoch_third epoch_bounds
  apply (simp add: epochSession_def keystrokeEvent_def epoch_rates Math_round_eq)
  apply (simp add: epoch_decline)
  done

text \<open>
  Claim C5. \<open>detectFatigue\<close> returns the zeroed result whenever there are fewer than
  10 events, whatever their timestamps, and whenever the early group or the late group
  is empty. Twelve events that all fall in the first third leave the late group empty,
  so the result is zeroed although twelve reaches the threshold of 10.
\<close>

theorem fatigue_zeroed:
  assumes "length ks < 10
         \<or> filter (\<lambda>k. keyDownTime k < js_add s (js_div (js_sub e s) 3)) ks = []
         \<or> filter (\<lambda>k. keyDownTime k > js_add s (js_mul 2 (js_div (js_sub e s) 3))) ks = []"
  shows "detectFatigue ks s e =
           \<lparr>fatigueDetected = False, fatigueScore = 0, earlyWPM = 0, lateWPM = 0\<rparr>"
  using assms by (simp add: detectFatigue_unfold)

theorem fatigue_zeroed_witness:
  "length earlySession = 12
   \<and> length (filter (\<lambda>k. keyDownTime k < js_add 0 (js_div (js_sub 3000 0) 3)) earlySession) = 12
   \<and> filter (\<lambda>k. keyDownTime k > js_add 0 (js_mul 2 (js_div (js_sub 3000 0) 3))) earlySession = []
   \<and> detectFatigue earlySession 0 3000 =
       \<lparr>fatigueDetected = False, fatigueScore = 0, earlyWPM = 0, lateWPM = 0\<rparr>"
proof -
  have h1: "length earlySession = 12"
    by (simp add: earlySession_def)
  have h2: "length (filter (\<lambda>k. keyDownTime k < js_add 0 (js_div (js_sub 3000 0) 3))
      earlySession) = 12"
    unfolding window_3000 by (simp add: earlySession_def keystrokeEvent_def)
  have h3: "filter (\<lambda>k. keyDownTime k > js_add 0 (js_mul 2 (js_div (js_sub 3000 0) 3)))
      earlySession = []"
    unfolding window_3000 by (simp add: earlySession_def keystrokeEvent_def)
  have h4: "detectFatigue earlySession 0 3000 =
       \<lparr>fatigueDetected = False, fatigueScore = 0, earlyWPM = 0, lateWPM = 0\<rparr>"
    using h3 by (intro fatigue_zeroed disjI2)
  show ?thesis by (intro conjI h1 h2 h3 h4)
qed

text \<open>
  Claim C10. For a window with \<open>startTime < endTime\<close> the late group's words per
  minute are never negative, so the decline is at most 100 and the fatigue score lies
  between 0 and 100, in the result of \<open>detectFatigue\<close> and in the record of
  \<open>calculatePerformanceMetrics\<close>.
\<close>

theorem fatigue_score_at_most_100:
  assumes "s < e"
  shows "0 \<le> lateWPM (detectFatigue ks s e)
       \<and> 0 \<le> fatigueScore (detectFatigue ks s e)
       \<and> fatigueScore (detectFatigue ks s e) \<le> 100
       \<and> 0 \<le> metricsFatigueScore (calculatePerformanceMetrics typed ref ks s e)
       \<and> metricsFatigueScore (calculatePerformanceMetrics typed ref ks s e) \<le> 100"
  using assms
  by (simp add: lateWPM_nonneg fatigueScore_nonneg fatigueScore_le_100 metrics_fatigueScore)

theorem fatigue_score_at_most_100_witness:
  "(0::real) < 3000
   \<and> fatigueScore (detectFatigue steadySession 0 3000) = 33
   \<and> fatigueScore (detectFatigue steadySession 0 3000) \<le> 100
   \<and> metricsFatigueScore (calculatePerformanceMetrics ''helo'' ''hello'' steadySession 0 3000) \<le> 100"
proof -
  have lt: "(0::real) < 3000" by simp
  have v: "fatigueScore (detectFatigue steadySession 0 3000) = 33"
    unfolding detectFatigue_def earlyKeystrokes_def lateKeystrokes_def Let_def window_3000
    apply (simp add: steadySession_def keystrokeEvent_def steady_rates(1,2) Math_round_eq)
    apply (simp add: steady_rates(3,4))
    done
  show ?thesis
    using fatigue_score_at_most_100 [OF lt, of steadySession "''helo''" "''hello''"] lt v
    by simp
qed

section \<open>The composed record\<close>

text \<open>
  Claim C8. In the record of \<open>calculatePerformanceMetrics\<close> the correct and the
  incorrect keystrokes add up to the total, the total is the number of events, the
  correct ones are the events whose \<open>isCorrect\<close> flag is set and the incorrect ones
  are the rest.
\<close>

theorem keystroke_tally:
  "(let m = calculatePerformanceMetrics typed ref ks s e
    in correctKeystrokes m + incorrectKeystrokes m = totalKeystrokes m
       \<and> totalKeystrokes m = int (length ks)
       \<and> correctKeystrokes m = int (length (filter isCorrect ks))
       \<and> incorrectKeystrokes m = int (length (filter (\<lambda>k. \<not> isCorrect k) ks)))"
proof -
  have "length (filter isCorrect ks) + length (filter (\<lambda>k. \<not> isCorrect k) ks) = length ks"
    by (rule sum_length_filter_compl)
  then have "int (length ks) - int (length (filter isCorrect ks))
      = int (length (filter (\<lambda>k. \<not> isCorrect k) ks))"
    by linarith
  then show ?thesis
    by (simp add: calculatePerformanceMetrics_def Let_def)
qed

text \<open>
  Claim C9. In the record of \<open>calculatePerformanceMetrics\<close> the accuracy and the
  error rate lie between 0 and 100 inclusive. The fatigue score is at least 0; the
  record takes it from \<open>detectFatigue\<close> as it is, with no upper clamp.
\<close>

theorem percentages_in_range:
  "(let m = calculatePerformanceMetrics typed ref ks s e
    in 0 \<le> accuracy m \<and> accuracy m \<le> 100
       \<and> 0 \<le> errorRate m \<and> errorRate m \<le> 100
       \<and> errorRate m = 100 - accuracy m
       \<and> 0 \<le> metricsFatigueScore m
       \<and> metricsFatigueScore m = fatigueScore (detectFatigue ks s e))"
proof -
  have acc: "accuracy (calculatePerformanceMetrics typed ref ks s e) = calculateAccuracy typed ref"
    by (simp add: calculatePerformanceMetrics_def Let_def)
  have err: "errorRate (calculatePerformanceMetrics typed ref ks s e)
      = 100 - calculateAccuracy typed ref"
    by (simp add: calculatePerformanceMetrics_def Let_def)
  have fat: "metricsFatigueScore (calculatePerformanceMetrics typed ref ks s e)
      = fatigueScore (detectFatigue ks s e)"
    by (rule metrics_fatigueScore)
  have "0 \<le> fatigueScore (detectFatigue ks s e)"
    by (rule fatigueScore_nonneg)
  then show ?thesis
    using calculateAccuracy_bounds [of typed ref]
    unfolding Let_def acc err fat by simp
qed

end
